theory Spec2Isabelle
  imports Complex_Main
begin

section \<open>Logarithmic triangle tilings: the geometry engine of TriangleTiling.py\<close>

text \<open>
  The development embeds the class \<^verbatim>\<open>MultiTriangleTiling\<close> and its subclass
  \<^verbatim>\<open>RegularMultiTriangleTiling\<close>. NumPy's float64 coordinates are idealised as
  real numbers, so an equality that the program reaches up to rounding is an equality
  here. Where float64 arithmetic leaves the reals (a division by zero produces inf or
  nan with a RuntimeWarning and no exception) the model says so explicitly.
\<close>

subsection \<open>Points and the rows of a (3, 2) array\<close>

type_synonym point = "real \<times> real"

definition padd :: "point \<Rightarrow> point \<Rightarrow> point" where
  "padd p q = (fst p + fst q, snd p + snd q)"

definition psub :: "point \<Rightarrow> point \<Rightarrow> point" where
  "psub p q = (fst p - fst q, snd p - snd q)"

definition pscale :: "real \<Rightarrow> point \<Rightarrow> point" where
  "pscale k p = (k * fst p, k * snd p)"

text \<open>
  \<^verbatim>\<open>np.dot(rot_mat, v)\<close> with
  \<^verbatim>\<open>rot_mat = [[cos t, sin t], [-sin t, cos t]]\<close>.
\<close>

definition rot_mat_dot :: "real \<Rightarrow> point \<Rightarrow> point" where
  "rot_mat_dot t p = (cos t * fst p + sin t * snd p, - sin t * fst p + cos t * snd p)"

text \<open>
  A triangle is an array of shape (3, 2): row 0 is the vertex called point C in the
  source, row 1 is point B, row 2 is point A.
\<close>

datatype triangle = Triangle (P_C: point) (P_B: point) (P_A: point)

text \<open>An operation broadcast over the three rows.\<close>

fun rows :: "(point \<Rightarrow> point) \<Rightarrow> triangle \<Rightarrow> triangle" where
  "rows f (Triangle pc pb pa) = Triangle (f pc) (f pb) (f pa)"

definition zeros :: triangle where
  "zeros = Triangle (0, 0) (0, 0) (0, 0)"

subsection \<open>The object and its attributes\<close>

text \<open>
  The attributes \<^verbatim>\<open>N\<close>, \<^verbatim>\<open>triangles\<close>, \<^verbatim>\<open>all_triangles\<close> and
  \<^verbatim>\<open>theta_m\<close> are assigned by \<^verbatim>\<open>get_triangles\<close> and
  \<^verbatim>\<open>get_all_triangles\<close>; until then the record holds empty arrays and zero in
  their place. No method reads one of them before assigning it.
\<close>

record tiling =
  self_n :: int
  self_m :: int
  self_C :: real
  self_A :: real
  self_B :: real
  self_a :: real
  self_b :: real
  self_c :: real
  self_s :: real
  self_N :: int
  self_triangles :: "triangle list"
  self_all_triangles :: "triangle list list"
  self_theta_m :: real

text \<open>The exceptions the source can raise are Python's and NumPy's own.\<close>

datatype error = ZeroDivisionError | OverflowError | ValueError | IndexError

text \<open>What a method returns to its caller.\<close>

datatype pyval = PyNone | Array4 "triangle list list"

subsection \<open>next_triangle\<close>

text \<open>
  The body of \<^verbatim>\<open>next_triangle\<close>, statement by statement, on array values.
  \<^verbatim>\<open>rot_shift = _next_triangle[0]\<close> is a view of row 0 of the copy, not a copy of
  that row: it shows the row's current content each time it is read. In
  \<^verbatim>\<open>_next_triangle -= rot_shift\<close> the operands overlap and NumPy (1.13 and
  later) computes the result as if they did not, so every row loses the old row 0.
  After that row 0 is zero, it stays zero under rotation and scaling, and
  \<^verbatim>\<open>_next_triangle += rot_shift\<close> adds the row 0 of that moment.
\<close>

definition next_triangle :: "tiling \<Rightarrow> triangle \<Rightarrow> triangle" where
  "next_triangle T triangle =
    (let t1 = triangle;
         t2 = rows (\<lambda>p. psub p (P_C t1)) t1;
         t3 = rows (rot_mat_dot (self_A T)) t2;
         t4 = rows (pscale (self_s T)) t3;
         t5 = rows (\<lambda>p. padd p (P_C t4)) t4;
         t6 = rows (\<lambda>p. padd p (psub (P_B triangle) (P_C triangle))) t5
     in t6)"

subsection \<open>get_triangles\<close>

definition first_triangle :: "tiling \<Rightarrow> triangle" where
  "first_triangle T =
     Triangle (0, 0) (pscale (self_a T) (cos (self_C T), sin (self_C T))) (self_b T, 0)"

text \<open>
  One pass of the loop body for index \<open>i\<close>, on the pair of the array
  \<^verbatim>\<open>self.triangles\<close> and the local \<^verbatim>\<open>triangle\<close>. The index \<open>i - 1\<close>
  is \<open>-1\<close> in the first pass, which Python reads as the last row of the array.
\<close>

definition get_triangles_body ::
    "tiling \<Rightarrow> nat \<Rightarrow> triangle list \<times> triangle \<Rightarrow> triangle list \<times> triangle" where
  "get_triangles_body T i st =
    (let trs = (fst st)[i := snd st];
         nxt = next_triangle T (snd st);
         prev = (if i = 0 then trs ! (length trs - 1) else trs ! (i - 1));
         shift = psub (P_B prev) (P_C (trs ! 0))
     in (trs, rows (\<lambda>p. padd p shift) nxt))"

text \<open>
  \<^verbatim>\<open>np.zeros\<close> refuses a negative dimension with a ValueError, raised after
  \<^verbatim>\<open>self.N\<close> is stored. The method has no return statement.
\<close>

definition get_triangles :: "tiling \<Rightarrow> int \<Rightarrow> (error \<times> tiling) + (tiling \<times> pyval)" where
  "get_triangles T N =
    (let T1 = T\<lparr>self_N := N\<rparr> in
     if N < 0 then Inl (ValueError, T1)
     else
       let st = fold (get_triangles_body T1) [0..<nat N]
                  (replicate (nat N) zeros, first_triangle T1)
       in Inr (T1\<lparr>self_triangles := fst st\<rparr>, PyNone))"

subsection \<open>get_all_triangles\<close>

text \<open>
  Python's index into an axis of the given size: a negative index counts from the end,
  and an index outside \<open>[-size, size)\<close> raises IndexError (\<open>None\<close> here).
\<close>

definition py_index :: "nat \<Rightarrow> int \<Rightarrow> nat option" where
  "py_index len j =
     (if 0 \<le> j \<and> j < int len then Some (nat j)
      else if j < 0 \<and> - int len \<le> j then Some (nat (int len + j))
      else None)"

text \<open>
  The two nested loops \<^verbatim>\<open>for tri in range(N): for point in range(3)\<close>, which
  replace each point of each triangle by its rotation.
\<close>

definition rotate_arm :: "real \<Rightarrow> nat \<Rightarrow> triangle list \<Rightarrow> triangle list" where
  "rotate_arm theta N new_arm =
     fold (\<lambda>tri arm. arm[tri := rows (rot_mat_dot theta) (arm ! tri)]) [0..<N] new_arm"

text \<open>
  The body of the loop over arms for index \<open>i\<close>. \<^verbatim>\<open>rot_shift\<close> is a view of
  \<^verbatim>\<open>self.triangles\<close>, which the body does not write, and \<^verbatim>\<open>new_arm\<close> is a
  copy. Reading row 0 of an empty \<^verbatim>\<open>self.triangles\<close> raises IndexError, and so
  does the anchor index \<open>n - 1\<close> when it falls outside the \<open>N\<close> triangles of an arm.
  Nothing is stored in the object before the last statement.
\<close>

definition arm_body :: "tiling \<Rightarrow> int \<Rightarrow> nat \<Rightarrow> (error \<times> tiling) + tiling" where
  "arm_body T N i =
    (let theta = self_theta_m T * real i in
     if self_triangles T = [] then Inl (IndexError, T)
     else
       let rot_shift = P_A (self_triangles T ! 0);
           new_arm1 = map (rows (\<lambda>p. psub p rot_shift)) (self_triangles T);
           new_arm2 = rotate_arm theta (nat N) new_arm1
       in (case py_index (nat (self_N T)) (self_n T - 1) of
             None \<Rightarrow> Inl (IndexError, T)
           | Some j \<Rightarrow>
               let anchor = P_B (self_all_triangles T ! (i - 1) ! j);
                   new_arm3 = map (rows (\<lambda>p. padd p anchor)) new_arm2
               in Inr (T\<lparr>self_all_triangles := (self_all_triangles T)[i := new_arm3]\<rparr>)))"

fun arms_loop :: "tiling \<Rightarrow> int \<Rightarrow> nat list \<Rightarrow> (error \<times> tiling) + tiling" where
  "arms_loop T N [] = Inr T"
| "arms_loop T N (i # is) =
     (case arm_body T N i of Inl e \<Rightarrow> Inl e | Inr T' \<Rightarrow> arms_loop T' N is)"

text \<open>
  The two reads of the loop body that can raise, each on its own: line 215,
  \<^verbatim>\<open>self.triangles[0, 2]\<close>, and line 227,
  \<^verbatim>\<open>self.all_triangles[i - 1, self.n - 1, 1]\<close>.
\<close>

definition read_rot_shift :: "tiling \<Rightarrow> error + point" where
  "read_rot_shift T =
     (if self_triangles T = [] then Inl IndexError else Inr (P_A (self_triangles T ! 0)))"

definition read_anchor :: "tiling \<Rightarrow> nat \<Rightarrow> error + point" where
  "read_anchor T i =
     (case py_index (nat (self_N T)) (self_n T - 1) of
        None \<Rightarrow> Inl IndexError
      | Some j \<Rightarrow> Inr (P_B (self_all_triangles T ! (i - 1) ! j)))"

text \<open>
  \<^verbatim>\<open>np.zeros((self.m, self.N, 3, 2))\<close> raises ValueError for a negative
  \<^verbatim>\<open>self.m\<close>, and storing arm 0 into an array without arms raises IndexError.
\<close>

definition get_all_triangles :: "tiling \<Rightarrow> int \<Rightarrow> (error \<times> tiling) + (tiling \<times> pyval)" where
  "get_all_triangles T N =
    (case get_triangles T N of
       Inl e \<Rightarrow> Inl e
     | Inr (T1, _) \<Rightarrow>
         if self_m T1 < 0 then Inl (ValueError, T1)
         else
           let T2 = T1\<lparr>self_all_triangles :=
                        replicate (nat (self_m T1)) (replicate (nat (self_N T1)) zeros)\<rparr>
           in if self_m T2 = 0 then Inl (IndexError, T2)
              else
                let T3 = T2\<lparr>self_all_triangles :=
                             (self_all_triangles T2)[0 := self_triangles T2]\<rparr>;
                    T4 = T3\<lparr>self_theta_m := 2 * pi / real_of_int (self_m T3)\<rparr>
                in (case arms_loop T4 N [1..<nat (self_m T4)] of
                      Inl e \<Rightarrow> Inl e
                    | Inr T5 \<Rightarrow> Inr (T5, Array4 (self_all_triangles T5))))"

subsection \<open>next_triangle on a store of arrays\<close>

text \<open>
  The same method with arrays as objects in a store, an address being a position in
  the list and a new array being appended. \<^verbatim>\<open>triangle.copy()\<close> allocates the
  array at address \<open>nt\<close>; \<^verbatim>\<open>rot_shift\<close> is the view of row 0 of that array and
  is read through the store each time; the argument is read again in the last statement.
\<close>

type_synonym store = "triangle list"

definition next_triangle_store :: "tiling \<Rightarrow> store \<Rightarrow> nat \<Rightarrow> store \<times> nat" where
  "next_triangle_store T h triangle =
    (let nt = length h;
         h1 = h @ [h ! triangle];
         h2 = h1[nt := rows (\<lambda>p. psub p (P_C (h1 ! nt))) (h1 ! nt)];
         h3 = h2[nt := rows (rot_mat_dot (self_A T)) (h2 ! nt)];
         h4 = h3[nt := rows (pscale (self_s T)) (h3 ! nt)];
         h5 = h4[nt := rows (\<lambda>p. padd p (P_C (h4 ! nt))) (h4 ! nt)];
         h6 = h5[nt := rows (\<lambda>p. padd p (psub (P_B (h5 ! triangle)) (P_C (h5 ! triangle))))
                        (h5 ! nt)]
     in (h6, nt))"

subsection \<open>The constructors and get_s\<close>

text \<open>
  A float64 value is a real number, an infinity of either sign or nan. Dividing a
  NumPy scalar by zero gives nan for a zero numerator and an infinity otherwise, with a
  RuntimeWarning; it does not raise.
\<close>

datatype npfloat = Fin real | Inf | NaN

definition np_divide :: "real \<Rightarrow> real \<Rightarrow> npfloat" where
  "np_divide x y = (if y \<noteq> 0 then Fin (x / y) else if x = 0 then NaN else Inf)"

text \<open>
  SymPy's \<^verbatim>\<open>solve\<close> is a library outside the repository and is a parameter here:
  \<open>solve a n b\<close> stands for the list that
  \<^verbatim>\<open>solve(a * _s ** n + b * _s - 1, _s)\<close> returns for the symbol
  \<^verbatim>\<open>_s\<close> declared real and positive and the float64 coefficients \<open>a\<close> and \<open>b\<close>.
\<close>

type_synonym solver = "npfloat \<Rightarrow> int \<Rightarrow> npfloat \<Rightarrow> real list"

text \<open>\<^verbatim>\<open>s[0]\<close> on an empty list raises IndexError.\<close>

definition get_s :: "solver \<Rightarrow> tiling \<Rightarrow> error + tiling" where
  "get_s solve T =
     (case solve (Fin (self_a T)) (self_n T) (Fin (self_b T)) of
        [] \<Rightarrow> Inl IndexError
      | r # _ \<Rightarrow> Inr (T\<lparr>self_s := r\<rparr>))"

text \<open>
  \<^verbatim>\<open>get_s\<close> on an object whose side ratios are not finite: an empty list of
  solutions raises IndexError at \<^verbatim>\<open>s[0]\<close> as before; with a solution the
  constructor returns an object that has attributes outside the real numbers, which the
  record does not hold (\<open>Escapes\<close> below).
\<close>

datatype outcome = Raises error | Escapes | Returns tiling

definition get_s_nonfinite :: "solver \<Rightarrow> npfloat \<Rightarrow> int \<Rightarrow> npfloat \<Rightarrow> outcome" where
  "get_s_nonfinite solve a n b =
     (case solve a n b of [] \<Rightarrow> Raises IndexError | r # _ \<Rightarrow> Escapes)"

definition deg2rad :: "real \<Rightarrow> real" where
  "deg2rad x = x * (pi / 180)"

text \<open>
  A Python integer that does not convert to a float: the conversion rounds to the
  nearest float64 and raises OverflowError when that is beyond the largest one,
  \<open>2 ^ 1024 - 2 ^ 971\<close>.
\<close>

definition int_too_large :: "int \<Rightarrow> bool" where
  "int_too_large k \<longleftrightarrow> 2 ^ 1024 - 2 ^ 970 \<le> \<bar>k\<bar>"

text \<open>
  Lines 44 to 49 of the constructor: the angle \<^verbatim>\<open>self.A\<close>. The quotient
  \<^verbatim>\<open>2 * np.pi / self.m\<close> is a division of a Python float by a Python integer:
  it raises OverflowError for an \<open>m\<close> that does not convert to a float and
  ZeroDivisionError for \<open>m = 0\<close>. The division by \<^verbatim>\<open>self.n - 1\<close> has a NumPy
  scalar as its numerator: it converts the integer in the same way and does not raise
  for a zero divisor.
\<close>

definition general_angle_A :: "real \<Rightarrow> int \<Rightarrow> int \<Rightarrow> error + npfloat" where
  "general_angle_A C n m =
     (if int_too_large m then Inl OverflowError
      else if m = 0 then Inl ZeroDivisionError
      else if int_too_large (n - 1) then Inl OverflowError
      else Inr (np_divide (2 * pi / real_of_int m - pi + deg2rad C) (real_of_int (n - 1))))"

text \<open>
  Lines 50 to 58 for finite angles \<open>A\<close> and \<open>C\<close>. The two side ratios have the same
  divisor \<^verbatim>\<open>np.sin(self.C)\<close>, so both are finite or neither is.
\<close>

definition side_ratios :: "solver \<Rightarrow> int \<Rightarrow> int \<Rightarrow> real \<Rightarrow> real \<Rightarrow> outcome" where
  "side_ratios solve n m A C =
    (let B = pi - (A + C) in
     case (np_divide (sin A) (sin C), np_divide (sin B) (sin C)) of
       (Fin a, Fin b) \<Rightarrow>
         (case get_s solve
                 \<lparr>self_n = n, self_m = m, self_C = C, self_A = A, self_B = B,
                  self_a = a, self_b = b, self_c = 1, self_s = 0, self_N = 0,
                  self_triangles = [], self_all_triangles = [], self_theta_m = 0\<rparr> of
            Inl e \<Rightarrow> Raises e
          | Inr T \<Rightarrow> Returns T)
     | (a, b) \<Rightarrow> get_s_nonfinite solve a n b)"

text \<open>
  The constructor. When the angle \<open>A\<close> is not finite, \<open>B = pi - (A + C)\<close> is not
  finite either, \<^verbatim>\<open>np.sin\<close> of an infinity or of nan is nan, and nan divided by
  anything is nan: both side ratios are nan and \<^verbatim>\<open>get_s\<close> is called with them.
\<close>

definition init :: "solver \<Rightarrow> real \<Rightarrow> int \<Rightarrow> int \<Rightarrow> outcome" where
  "init solve C n m =
    (case general_angle_A C n m of
       Inl e \<Rightarrow> Raises e
     | Inr (Fin A) \<Rightarrow> side_ratios solve n m A (deg2rad C)
     | Inr _ \<Rightarrow> get_s_nonfinite solve NaN n NaN)"

text \<open>The constructor of \<^verbatim>\<open>RegularMultiTriangleTiling\<close>, with \<open>n = 1\<close>.\<close>

definition regular_init :: "solver \<Rightarrow> real \<Rightarrow> int \<Rightarrow> outcome" where
  "regular_init solve A m =
    (if int_too_large m then Raises OverflowError
     else if m = 0 then Raises ZeroDivisionError
     else side_ratios solve 1 m (deg2rad A) (pi - 2 * pi / real_of_int m))"

subsection \<open>Vocabulary of the properties\<close>

text \<open>
  The similarity that places a copy of a triangle on its own point B: every point is
  taken relative to point C, rotated by \<open>A\<close>, scaled by \<open>s\<close> and moved to point B.
\<close>

definition similar_step :: "real \<Rightarrow> real \<Rightarrow> triangle \<Rightarrow> triangle" where
  "similar_step s A t =
     rows (\<lambda>p. padd (pscale s (rot_mat_dot A (psub p (P_C t)))) (P_B t)) t"

definition arm_seq :: "tiling \<Rightarrow> nat \<Rightarrow> triangle" where
  "arm_seq T j = (similar_step (self_s T) (self_A T) ^^ j) (first_triangle T)"

text \<open>The length of the segment between two points.\<close>

definition side :: "point \<Rightarrow> point \<Rightarrow> real" where
  "side p q = sqrt ((fst p - fst q)\<^sup>2 + (snd p - snd q)\<^sup>2)"

text \<open>An object with the angles and ratios of a right triangle, \<open>n = 2\<close> and three arms.\<close>

definition example_tiling :: tiling where
  "example_tiling =
     \<lparr>self_n = 2, self_m = 3, self_C = pi / 2, self_A = pi / 6, self_B = pi / 3,
      self_a = 1 / 2, self_b = sqrt 3 / 2, self_c = 1, self_s = (sqrt 11 - sqrt 3) / 2,
      self_N = 0, self_triangles = [], self_all_triangles = [], self_theta_m = 0\<rparr>"

text \<open>
  Arm \<open>i\<close> of the assembled tiling, for the anchor row \<open>j\<close> and the arm \<open>trs\<close>
  of \<^verbatim>\<open>get_triangles\<close>: arm 0 is \<open>trs\<close>, and a later arm is \<open>trs\<close> taken
  relative to point A of its first triangle, rotated by \<open>theta * i\<close> and moved to
  point B of triangle \<open>j\<close> of the arm before.
\<close>

primrec arm_of :: "real \<Rightarrow> nat \<Rightarrow> triangle list \<Rightarrow> nat \<Rightarrow> triangle list" where
  "arm_of theta j trs 0 = trs"
| "arm_of theta j trs (Suc i) =
     map (rows (\<lambda>p. padd (rot_mat_dot (theta * real (Suc i)) (psub p (P_A (trs ! 0))))
                          (P_B (arm_of theta j trs i ! j)))) trs"

text \<open>The object after a successful \<^verbatim>\<open>get_all_triangles(N)\<close> with anchor row \<open>j\<close>.\<close>

definition assembled :: "tiling \<Rightarrow> int \<Rightarrow> nat \<Rightarrow> tiling" where
  "assembled T N j =
     (let trs = map (arm_seq T) [0..<nat N]; theta = 2 * pi / real_of_int (self_m T) in
      T\<lparr>self_N := N, self_triangles := trs,
        self_all_triangles := map (arm_of theta j trs) [0..<nat (self_m T)],
        self_theta_m := theta\<rparr>)"

text \<open>
  What is assumed of the solver where a property depends on its answer: the list holds
  exactly the positive real roots of the equation, in any order.
\<close>

definition solver_exact :: "solver \<Rightarrow> real \<Rightarrow> int \<Rightarrow> real \<Rightarrow> bool" where
  "solver_exact solve a n b \<longleftrightarrow>
     set (solve (Fin a) n (Fin b)) = {s. 0 < s \<and> a * power_int s n + b * s - 1 = 0}"

text \<open>
  The answer for \<open>n = 1\<close>, where the equation is \<open>(a + b) * s - 1 = 0\<close>: its root when
  the root is positive, and no root otherwise, nor for a coefficient that is not finite.
\<close>

fun linear_solver :: solver where
  "linear_solver (Fin a) n (Fin b) = (if 0 < a + b then [1 / (a + b)] else [])"
| "linear_solver a n b = []"

text \<open>
  The attributes that \<^verbatim>\<open>RegularMultiTriangleTiling(A = 60, m = 3)\<close> has when it
  calls \<^verbatim>\<open>get_s\<close>: an equilateral triangle.
\<close>

definition equilateral_tiling :: tiling where
  "equilateral_tiling =
     \<lparr>self_n = 1, self_m = 3, self_C = pi / 3, self_A = pi / 3, self_B = pi / 3,
      self_a = 1, self_b = 1, self_c = 1, self_s = 0,
      self_N = 0, self_triangles = [], self_all_triangles = [], self_theta_m = 0\<rparr>"

text \<open>
  The translation of arm \<open>i\<close>: the point on which point A of its first triangle
  lands, for \<open>p0\<close> that point A in arm 0 and \<open>u\<close> the anchor point of arm 0.
\<close>

primrec anchor_of :: "real \<Rightarrow> point \<Rightarrow> point \<Rightarrow> nat \<Rightarrow> point" where
  "anchor_of theta p0 u 0 = p0"
| "anchor_of theta p0 u (Suc i) =
     padd (rot_mat_dot (theta * real i) (psub u p0)) (anchor_of theta p0 u i)"

text \<open>A point as a complex number, for the algebra of rotations.\<close>

definition cx :: "point \<Rightarrow> complex" where
  "cx p = Complex (fst p) (snd p)"

section \<open>Properties\<close>

subsection \<open>The arm of get_triangles\<close>

lemma next_triangle_eq:
  "next_triangle T t =
     rows (\<lambda>p. padd (pscale (self_s T) (rot_mat_dot (self_A T) (psub p (P_C t))))
                     (psub (P_B t) (P_C t))) t"
  by (cases t) (simp add: next_triangle_def Let_def padd_def psub_def pscale_def rot_mat_dot_def)

lemma P_C_similar_step: "P_C (similar_step s A t) = P_B t"
  by (cases t) (simp add: similar_step_def padd_def psub_def pscale_def rot_mat_dot_def)

lemma arm_seq_Suc: "arm_seq T (Suc j) = similar_step (self_s T) (self_A T) (arm_seq T j)"
  by (simp add: arm_seq_def)

lemma arm_seq_0: "arm_seq T 0 = first_triangle T"
  by (simp add: arm_seq_def)

lemma P_C_arm_seq: "P_C (arm_seq T j) = (if j = 0 then (0, 0) else P_B (arm_seq T (j - 1)))"
  by (cases j) (simp_all add: arm_seq_0 arm_seq_Suc P_C_similar_step first_triangle_def)

lemma shifted_next:
  assumes "P_C t = q"
  shows "rows (\<lambda>p. padd p (psub q (0, 0))) (next_triangle T t) =
         similar_step (self_s T) (self_A T) t"
  using assms
  by (cases t)
    (simp add: next_triangle_eq similar_step_def padd_def psub_def pscale_def rot_mat_dot_def)

lemma rows_add_zero: "rows (\<lambda>p. padd p (psub (0, 0) (0, 0))) t = t"
  by (cases t) (simp add: padd_def psub_def)

lemma next_first:
  "next_triangle T (first_triangle T) = similar_step (self_s T) (self_A T) (first_triangle T)"
  by (simp add: next_triangle_eq similar_step_def first_triangle_def padd_def psub_def
      pscale_def rot_mat_dot_def)

lemma list_update_prefix:
  assumes "k < N"
  shows "(map f [0..<k] @ replicate (N - k) z)[k := f k] =
         map f [0..<Suc k] @ replicate (N - Suc k) z"
proof -
  from assms obtain d where d: "N - k = Suc d" "N - Suc k = d"
    by (metis Suc_diff_Suc)
  show ?thesis by (simp add: d list_update_append)
qed

text \<open>
  After \<open>k\<close> passes of the loop the first \<open>k\<close> rows of the array hold the arm and the
  rest is still zero. For two triangles or more the local triangle is the next one of
  the arm: the last row, read in the first pass, is zero then.
\<close>

lemma loop_invariant:
  assumes "2 \<le> N" "k \<le> N"
  shows "fold (get_triangles_body T) [0..<k] (replicate N zeros, first_triangle T) =
           (map (arm_seq T) [0..<k] @ replicate (N - k) zeros, arm_seq T k)"
  using assms(2)
proof (induction k)
  case 0
  then show ?case by (simp add: arm_seq_0)
next
  case (Suc k)
  then have k: "k < N" by simp
  let ?trs = "map (arm_seq T) [0..<k] @ replicate (N - k) zeros"
  note upd = list_update_prefix [OF k, of "arm_seq T" zeros]
  have len: "length ?trs = N" using k by simp
  have nth0: "(?trs[k := arm_seq T k]) ! 0 = first_triangle T"
    using k by (cases "k = 0") (simp_all add: nth_append arm_seq_0)
  have PC0: "P_C (first_triangle T) = (0, 0)" by (simp add: first_triangle_def)
  have body: "get_triangles_body T k (?trs, arm_seq T k) =
          (?trs[k := arm_seq T k], arm_seq T (Suc k))"
  proof (cases "k = 0")
    case True
    have "(?trs[k := arm_seq T k]) ! (N - 1) = zeros"
      using True assms(1) by (simp add: nth_list_update)
    then show ?thesis
      using True nth0 PC0 len
      by (simp add: get_triangles_body_def Let_def zeros_def arm_seq_Suc arm_seq_0
          rows_add_zero next_first)
  next
    case False
    have "(?trs[k := arm_seq T k]) ! (k - 1) = arm_seq T (k - 1)"
      using False k by (simp add: nth_list_update nth_append)
    moreover have "P_C (arm_seq T k) = P_B (arm_seq T (k - 1))"
      using False by (simp add: P_C_arm_seq)
    ultimately show ?thesis
      using False nth0 PC0
      by (simp add: get_triangles_body_def Let_def arm_seq_Suc shifted_next)
  qed
  have "fold (get_triangles_body T) [0..<Suc k] (replicate N zeros, first_triangle T) =
        get_triangles_body T k (?trs, arm_seq T k)"
    using Suc by simp
  then show ?case using body upd by simp
qed

lemma arm_seq_self_N [simp]: "arm_seq (T\<lparr>self_N := N\<rparr>) = arm_seq T"
  by (simp add: arm_seq_def first_triangle_def fun_eq_iff)

lemma first_triangle_self_N [simp]: "first_triangle (T\<lparr>self_N := N\<rparr>) = first_triangle T"
  by (simp add: first_triangle_def)

lemma get_triangles_arm:
  assumes "0 \<le> N"
  shows "get_triangles T N =
     Inr (T\<lparr>self_N := N, self_triangles := map (arm_seq T) [0..<nat N]\<rparr>, PyNone)"
proof -
  let ?T1 = "T\<lparr>self_N := N\<rparr>"
  let ?st = "fold (get_triangles_body ?T1) [0..<nat N] (replicate (nat N) zeros, first_triangle ?T1)"
  have "fst ?st = map (arm_seq T) [0..<nat N]"
  proof -
    consider "N = 0" | "N = 1" | "2 \<le> N" using assms by linarith
    then show ?thesis
    proof cases
      case 1
      then show ?thesis by simp
    next
      case 2
      then show ?thesis by (simp add: get_triangles_body_def Let_def arm_seq_0)
    next
      case 3
      then have "?st = (map (arm_seq ?T1) [0..<nat N] @ replicate (nat N - nat N) zeros,
                        arm_seq ?T1 (nat N))"
        by (intro loop_invariant) simp_all
      then show ?thesis by simp
    qed
  qed
  then show ?thesis using assms by (simp add: get_triangles_def Let_def)
qed

text \<open>
  C1. For an arm of at least two triangles, \<^verbatim>\<open>get_triangles\<close> succeeds, stores
  \<open>N\<close> triangles, and point C of every triangle after the first one is point B of the
  triangle before it. With real coordinates the two points are equal.
\<close>

theorem get_triangles_edge_matching:
  assumes "2 \<le> N"
  shows "\<exists>T'. get_triangles T N = Inr (T', PyNone) \<and> length (self_triangles T') = nat N \<and>
           (\<forall>i. i + 1 < nat N \<longrightarrow>
              P_C (self_triangles T' ! (i + 1)) = P_B (self_triangles T' ! i))"
proof -
  let ?T' = "T\<lparr>self_N := N, self_triangles := map (arm_seq T) [0..<nat N]\<rparr>"
  have "get_triangles T N = Inr (?T', PyNone)"
    using assms by (intro get_triangles_arm) simp
  moreover have "P_C (self_triangles ?T' ! (i + 1)) = P_B (self_triangles ?T' ! i)"
    if "i + 1 < nat N" for i
    using that by (simp add: P_C_arm_seq)
  ultimately show ?thesis by auto
qed

theorem get_triangles_edge_matching_witness:
  "(2::int) \<le> 3 \<and>
   (\<exists>T'. get_triangles example_tiling 3 = Inr (T', PyNone) \<and> length (self_triangles T') = 3 \<and>
      P_C (self_triangles T' ! 1) = P_B (self_triangles T' ! 0) \<and>
      P_C (self_triangles T' ! 2) = P_B (self_triangles T' ! 1))"
proof -
  have h: "(2::int) \<le> 3" by simp
  from get_triangles_edge_matching [OF h, of example_tiling]
  obtain T' where T': "get_triangles example_tiling 3 = Inr (T', PyNone)"
      "length (self_triangles T') = nat 3"
      "\<forall>i. i + 1 < nat 3 \<longrightarrow> P_C (self_triangles T' ! (i + 1)) = P_B (self_triangles T' ! i)"
    by blast
  from T'(3) have "P_C (self_triangles T' ! (0 + 1)) = P_B (self_triangles T' ! 0)"
    "P_C (self_triangles T' ! (1 + 1)) = P_B (self_triangles T' ! 1)"
    by simp_all
  then have "P_C (self_triangles T' ! 1) = P_B (self_triangles T' ! 0)"
    "P_C (self_triangles T' ! 2) = P_B (self_triangles T' ! 1)"
    by (simp_all add: numeral_2_eq_2)
  with T'(1,2) show ?thesis by auto
qed

subsection \<open>The arms of get_all_triangles\<close>

lemma rows_rows: "rows f (rows g t) = rows (\<lambda>p. f (g p)) t"
  by (cases t) simp

lemma rotate_arm_prefix:
  "k \<le> length xs \<Longrightarrow>
   fold (\<lambda>tri arm. arm[tri := f (arm ! tri)]) [0..<k] xs = map f (take k xs) @ drop k xs"
proof (induction k)
  case 0
  then show ?case by simp
next
  case (Suc k)
  then have k: "k < length xs" by simp
  have "(map f (take k xs) @ drop k xs)[k := f ((map f (take k xs) @ drop k xs) ! k)] =
        map f (take (Suc k) xs) @ drop (Suc k) xs"
    using k by (simp add: list_update_append nth_append take_Suc_conv_app_nth
        Cons_nth_drop_Suc [symmetric])
  then show ?case using Suc by simp
qed

lemma rotate_arm_map:
  "N = length xs \<Longrightarrow> rotate_arm theta N xs = map (rows (rot_mat_dot theta)) xs"
  by (simp add: rotate_arm_def rotate_arm_prefix)

lemma arm_body_ok:
  assumes "self_triangles T \<noteq> []" "nat N = length (self_triangles T)"
    and "py_index (nat (self_N T)) (self_n T - 1) = Some j"
    and "self_all_triangles T ! (i - 1) = prev"
  shows "arm_body T N i =
     Inr (T\<lparr>self_all_triangles := (self_all_triangles T)[i :=
        map (rows (\<lambda>p. padd (rot_mat_dot (self_theta_m T * real i)
                                 (psub p (P_A (self_triangles T ! 0))))
                             (P_B (prev ! j)))) (self_triangles T)]\<rparr>)"
  using assms by (simp add: arm_body_def Let_def rotate_arm_map rows_rows o_def)

lemma arms_loop_invariant:
  assumes "self_triangles T \<noteq> []" "nat N = length (self_triangles T)"
    and "py_index (nat (self_N T)) (self_n T - 1) = Some j"
    and "1 \<le> k" "k \<le> M"
    and "self_all_triangles T =
           map (arm_of (self_theta_m T) j (self_triangles T)) [0..<k] @ replicate (M - k) Z"
  shows "arms_loop T N [k..<M] =
           Inr (T\<lparr>self_all_triangles :=
                   map (arm_of (self_theta_m T) j (self_triangles T)) [0..<M]\<rparr>)"
  using assms
proof (induction "M - k" arbitrary: k T)
  case 0
  then show ?case by simp
next
  case (Suc d)
  then have k: "k < M" by simp
  let ?f = "arm_of (self_theta_m T) j (self_triangles T)"
  have prev: "self_all_triangles T ! (k - 1) = ?f (k - 1)"
    using Suc.prems(4) k by (simp add: Suc.prems(6) nth_append)
  let ?T' = "T\<lparr>self_all_triangles := (self_all_triangles T)[k := ?f k]\<rparr>"
  have fk: "?f k = map (rows (\<lambda>p. padd (rot_mat_dot (self_theta_m T * real k)
                                 (psub p (P_A (self_triangles T ! 0))))
                             (P_B (?f (k - 1) ! j)))) (self_triangles T)"
    using Suc.prems(4) by (cases k) simp_all
  have body: "arm_body T N k = Inr ?T'"
    using arm_body_ok [OF Suc.prems(1,2,3) prev] fk by simp
  have upd: "(self_all_triangles T)[k := ?f k] = map ?f [0..<Suc k] @ replicate (M - Suc k) Z"
    unfolding Suc.prems(6) using k by (rule list_update_prefix)
  have "arms_loop ?T' N [Suc k..<M] =
      Inr (?T'\<lparr>self_all_triangles :=
                   map (arm_of (self_theta_m ?T') j (self_triangles ?T')) [0..<M]\<rparr>)"
    using Suc.hyps Suc.prems k upd by (intro Suc.hyps(1)) simp_all
  then show ?case using body k by (simp add: upt_conv_Cons)
qed


lemma py_index_SomeD: "py_index len k = Some j \<Longrightarrow> j < len"
  by (auto simp: py_index_def split: if_splits)

lemma get_all_triangles_arms:
  assumes "0 \<le> N" "1 \<le> self_m T" "py_index (nat N) (self_n T - 1) = Some j"
  shows "get_all_triangles T N =
           Inr (assembled T N j, Array4 (self_all_triangles (assembled T N j)))"
proof -
  let ?trs = "map (arm_seq T) [0..<nat N]"
  let ?th = "2 * pi / real_of_int (self_m T)"
  let ?M = "nat (self_m T)"
  let ?T1 = "T\<lparr>self_N := N, self_triangles := ?trs\<rparr>"
  let ?T4 = "?T1\<lparr>self_all_triangles := (replicate ?M (replicate (nat N) zeros))[0 := ?trs],
                 self_theta_m := ?th\<rparr>"
  have N: "0 < nat N" using py_index_SomeD [OF assms(3)] by simp
  have M: "1 \<le> ?M" using assms(2) by simp
  have g: "get_triangles T N = Inr (?T1, PyNone)"
    using assms(1) by (rule get_triangles_arm)
  have all0: "self_all_triangles ?T4 =
     map (arm_of (self_theta_m ?T4) j (self_triangles ?T4)) [0..<1] @
       replicate (?M - 1) (replicate (nat N) zeros)"
    using M by (cases ?M) simp_all
  have "arms_loop ?T4 N [1..<?M] =
     Inr (?T4\<lparr>self_all_triangles :=
            map (arm_of (self_theta_m ?T4) j (self_triangles ?T4)) [0..<?M]\<rparr>)"
    using N M assms(3) by (intro arms_loop_invariant [OF _ _ _ _ _ all0]) simp_all
  then show ?thesis
    using g assms(2) by (simp add: get_all_triangles_def Let_def assembled_def)
qed

lemma P_A_arm_of_Suc:
  assumes "trs \<noteq> []"
  shows "P_A (arm_of theta j trs (Suc i) ! 0) = P_B (arm_of theta j trs i ! j)"
proof -
  obtain t ts where trs: "trs = t # ts" using assms by (cases trs) auto
  show ?thesis
    by (cases t) (simp add: trs padd_def psub_def rot_mat_dot_def)
qed

text \<open>
  C4. With \<open>1 \<le> n \<le> N\<close> and at least one arm, \<^verbatim>\<open>get_all_triangles\<close> succeeds
  and returns \<open>m\<close> arms. Arm 0 is the array that \<^verbatim>\<open>get_triangles\<close> stores, and for
  \<open>1 \<le> i < m\<close> point A of triangle 0 of arm \<open>i\<close> is point B of triangle \<open>n - 1\<close> of
  arm \<open>i - 1\<close>.
\<close>

theorem get_all_triangles_anchoring:
  assumes "1 \<le> self_n T" "self_n T \<le> N" "1 \<le> self_m T"
  shows "\<exists>T' arms. get_all_triangles T N = Inr (T', Array4 arms) \<and>
           get_triangles T N = Inr (T\<lparr>self_N := N, self_triangles := self_triangles T'\<rparr>, PyNone) \<and>
           length arms = nat (self_m T) \<and>
           arms ! 0 = self_triangles T' \<and>
           (\<forall>i. 1 \<le> i \<and> i < nat (self_m T) \<longrightarrow>
              P_A (arms ! i ! 0) = P_B (arms ! (i - 1) ! nat (self_n T - 1)))"
proof -
  let ?j = "nat (self_n T - 1)"
  have idx: "py_index (nat N) (self_n T - 1) = Some ?j"
    using assms by (simp add: py_index_def)
  have N0: "0 \<le> N" using assms by simp
  let ?T' = "assembled T N ?j"
  have 1: "get_all_triangles T N = Inr (?T', Array4 (self_all_triangles ?T'))"
    using N0 assms(3) idx by (rule get_all_triangles_arms)
  have 2: "get_triangles T N = Inr (T\<lparr>self_N := N, self_triangles := self_triangles ?T'\<rparr>, PyNone)"
    using get_triangles_arm [OF N0, of T] by (simp add: assembled_def Let_def)
  have 3: "length (self_all_triangles ?T') = nat (self_m T)"
    by (simp add: assembled_def Let_def)
  have 4: "self_all_triangles ?T' ! 0 = self_triangles ?T'"
    using assms(3) by (simp add: assembled_def Let_def nth_map_upt)
  have ne: "map (arm_seq T) [0..<nat N] \<noteq> []" using assms by simp
  have 5: "P_A (self_all_triangles ?T' ! i ! 0) = P_B (self_all_triangles ?T' ! (i - 1) ! ?j)"
    if "1 \<le> i \<and> i < nat (self_m T)" for i
  proof -
    from that obtain i' where i: "i = Suc i'" by (cases i) auto
    show ?thesis
      using that P_A_arm_of_Suc [OF ne]
      by (simp add: assembled_def Let_def i del: arm_of.simps)
  qed
  from 1 2 3 4 5 show ?thesis by blast
qed


theorem get_all_triangles_anchoring_witness:
  "(1::int) \<le> self_n example_tiling \<and> self_n example_tiling \<le> 2 \<and> 1 \<le> self_m example_tiling \<and>
   (\<exists>T' arms. get_all_triangles example_tiling 2 = Inr (T', Array4 arms) \<and>
      length arms = 3 \<and> arms ! 0 = self_triangles T' \<and>
      P_A (arms ! 1 ! 0) = P_B (arms ! 0 ! 1) \<and> P_A (arms ! 2 ! 0) = P_B (arms ! 1 ! 1))"
proof -
  have h: "1 \<le> self_n example_tiling" "self_n example_tiling \<le> 2" "1 \<le> self_m example_tiling"
    by (simp_all add: example_tiling_def)
  from get_all_triangles_anchoring [OF h]
  obtain T' arms where a: "get_all_triangles example_tiling 2 = Inr (T', Array4 arms)"
      "length arms = nat (self_m example_tiling)" "arms ! 0 = self_triangles T'"
      "\<forall>i. 1 \<le> i \<and> i < nat (self_m example_tiling) \<longrightarrow>
          P_A (arms ! i ! 0) = P_B (arms ! (i - 1) ! nat (self_n example_tiling - 1))"
    by blast
  have m: "nat (self_m example_tiling) = 3" and n: "nat (self_n example_tiling - 1) = 1"
    by (simp_all add: example_tiling_def)
  from a(4) have "P_A (arms ! 1 ! 0) = P_B (arms ! (1 - 1) ! 1)"
    "P_A (arms ! 2 ! 0) = P_B (arms ! (2 - 1) ! 1)"
    unfolding m n by simp_all
  then have "P_A (arms ! 1 ! 0) = P_B (arms ! 0 ! 1)" "P_A (arms ! 2 ! 0) = P_B (arms ! 1 ! 1)"
    by simp_all
  with a(1,2,3) h m show ?thesis by auto
qed

subsection \<open>Side lengths along an arm\<close>

lemma rot_scale_norm:
  fixes k c d x y :: real
  shows "(k * (c * x + d * y))\<^sup>2 + (k * (- d * x + c * y))\<^sup>2 = k\<^sup>2 * (c\<^sup>2 + d\<^sup>2) * (x\<^sup>2 + y\<^sup>2)"
  by algebra

lemma side_similar:
  "side (padd (pscale s (rot_mat_dot A (psub p c))) b) (padd (pscale s (rot_mat_dot A (psub q c))) b)
     = \<bar>s\<bar> * side p q"
proof -
  let ?x = "fst p - fst q" and ?y = "snd p - snd q"
  have 1: "s * (cos A * (fst p - fst c) + sin A * (snd p - snd c)) + fst b -
         (s * (cos A * (fst q - fst c) + sin A * (snd q - snd c)) + fst b) =
         s * (cos A * ?x + sin A * ?y)"
    by (simp add: algebra_simps)
  have 2: "s * (- sin A * (fst p - fst c) + cos A * (snd p - snd c)) + snd b -
         (s * (- sin A * (fst q - fst c) + cos A * (snd q - snd c)) + snd b) =
         s * (- sin A * ?x + cos A * ?y)"
    by (simp add: algebra_simps)
  have "(s * (cos A * ?x + sin A * ?y))\<^sup>2 + (s * (- sin A * ?x + cos A * ?y))\<^sup>2 =
        s\<^sup>2 * ((cos A)\<^sup>2 + (sin A)\<^sup>2) * (?x\<^sup>2 + ?y\<^sup>2)"
    by (rule rot_scale_norm)
  also have "\<dots> = s\<^sup>2 * (?x\<^sup>2 + ?y\<^sup>2)" by simp
  finally have 3: "(s * (cos A * ?x + sin A * ?y))\<^sup>2 + (s * (- sin A * ?x + cos A * ?y))\<^sup>2 =
       s\<^sup>2 * (?x\<^sup>2 + ?y\<^sup>2)" .
  have "side (padd (pscale s (rot_mat_dot A (psub p c))) b)
             (padd (pscale s (rot_mat_dot A (psub q c))) b) =
        sqrt ((s * (cos A * ?x + sin A * ?y))\<^sup>2 + (s * (- sin A * ?x + cos A * ?y))\<^sup>2)"
    unfolding side_def padd_def pscale_def rot_mat_dot_def psub_def fst_conv snd_conv 1 2 ..
  also have "\<dots> = \<bar>s\<bar> * sqrt (?x\<^sup>2 + ?y\<^sup>2)"
    unfolding 3 by (simp add: real_sqrt_mult)
  finally show ?thesis by (simp add: side_def)
qed

lemma sides_similar_step:
  "side (P_C (similar_step s A t)) (P_B (similar_step s A t)) = \<bar>s\<bar> * side (P_C t) (P_B t)"
  "side (P_B (similar_step s A t)) (P_A (similar_step s A t)) = \<bar>s\<bar> * side (P_B t) (P_A t)"
  "side (P_A (similar_step s A t)) (P_C (similar_step s A t)) = \<bar>s\<bar> * side (P_A t) (P_C t)"
  by (cases t; simp add: similar_step_def side_similar)+

text \<open>
  C5. For an arm of at least two triangles and a scaling factor that is not negative
  (the solver's symbol is declared positive), each of the three side lengths of
  triangle \<open>i + 1\<close> is \<open>s\<close> times the corresponding side length of triangle \<open>i\<close>.
\<close>

theorem get_triangles_side_lengths:
  assumes "2 \<le> N" "0 \<le> self_s T"
  shows "\<exists>T'. get_triangles T N = Inr (T', PyNone) \<and> length (self_triangles T') = nat N \<and>
           (\<forall>i. i + 1 < nat N \<longrightarrow>
              side (P_C (self_triangles T' ! (i + 1))) (P_B (self_triangles T' ! (i + 1))) =
                self_s T * side (P_C (self_triangles T' ! i)) (P_B (self_triangles T' ! i)) \<and>
              side (P_B (self_triangles T' ! (i + 1))) (P_A (self_triangles T' ! (i + 1))) =
                self_s T * side (P_B (self_triangles T' ! i)) (P_A (self_triangles T' ! i)) \<and>
              side (P_A (self_triangles T' ! (i + 1))) (P_C (self_triangles T' ! (i + 1))) =
                self_s T * side (P_A (self_triangles T' ! i)) (P_C (self_triangles T' ! i)))"
proof -
  let ?T' = "T\<lparr>self_N := N, self_triangles := map (arm_seq T) [0..<nat N]\<rparr>"
  have "get_triangles T N = Inr (?T', PyNone)"
    using assms by (intro get_triangles_arm) simp
  moreover have "self_triangles ?T' ! (i + 1) =
      similar_step (self_s T) (self_A T) (self_triangles ?T' ! i)"
    if "i + 1 < nat N" for i
    using that by (simp add: arm_seq_Suc)
  ultimately show ?thesis
    using assms(2) by (auto simp: sides_similar_step simp del: nth_map)
qed


theorem get_triangles_side_lengths_witness:
  "(2::int) \<le> 2 \<and> 0 \<le> self_s example_tiling \<and>
   (\<exists>T'. get_triangles example_tiling 2 = Inr (T', PyNone) \<and>
      side (P_C (self_triangles T' ! 1)) (P_B (self_triangles T' ! 1)) =
        self_s example_tiling * side (P_C (self_triangles T' ! 0)) (P_B (self_triangles T' ! 0)) \<and>
      side (P_B (self_triangles T' ! 1)) (P_A (self_triangles T' ! 1)) =
        self_s example_tiling * side (P_B (self_triangles T' ! 0)) (P_A (self_triangles T' ! 0)) \<and>
      side (P_A (self_triangles T' ! 1)) (P_C (self_triangles T' ! 1)) =
        self_s example_tiling * side (P_A (self_triangles T' ! 0)) (P_C (self_triangles T' ! 0)))"
proof -
  have h: "(2::int) \<le> 2" "0 \<le> self_s example_tiling"
    by (simp_all add: example_tiling_def)
  from get_triangles_side_lengths [OF h]
  obtain T' where a: "get_triangles example_tiling 2 = Inr (T', PyNone)"
    and b: "\<forall>i. i + 1 < nat 2 \<longrightarrow>
              side (P_C (self_triangles T' ! (i + 1))) (P_B (self_triangles T' ! (i + 1))) =
                self_s example_tiling * side (P_C (self_triangles T' ! i)) (P_B (self_triangles T' ! i)) \<and>
              side (P_B (self_triangles T' ! (i + 1))) (P_A (self_triangles T' ! (i + 1))) =
                self_s example_tiling * side (P_B (self_triangles T' ! i)) (P_A (self_triangles T' ! i)) \<and>
              side (P_A (self_triangles T' ! (i + 1))) (P_C (self_triangles T' ! (i + 1))) =
                self_s example_tiling * side (P_A (self_triangles T' ! i)) (P_C (self_triangles T' ! i))"
    by blast
  from b [rule_format, of 0] a h show ?thesis by simp
qed

subsection \<open>next_triangle and its argument\<close>

text \<open>
  C9. On the store, \<^verbatim>\<open>next_triangle\<close> allocates one new array and returns its
  address; every array that was in the store before the call, the argument among them,
  has the content it had before, and the new array holds the value of
  \<open>next_triangle\<close>.
\<close>

theorem next_triangle_leaves_argument:
  assumes "triangle < length h"
  shows "\<exists>h' r. next_triangle_store T h triangle = (h', r) \<and> r = length h \<and>
           length h' = Suc (length h) \<and>
           (\<forall>a. a < length h \<longrightarrow> h' ! a = h ! a) \<and>
           h' ! triangle = h ! triangle \<and>
           h' ! r = next_triangle T (h ! triangle)"
  using assms
  by (simp add: next_triangle_store_def next_triangle_def Let_def nth_append)


theorem next_triangle_leaves_argument_witness:
  "(0::nat) < length [first_triangle example_tiling] \<and>
   (\<exists>h' r. next_triangle_store example_tiling [first_triangle example_tiling] 0 = (h', r) \<and>
      r = 1 \<and> length h' = 2 \<and> h' ! 0 = first_triangle example_tiling \<and>
      h' ! r = next_triangle example_tiling (first_triangle example_tiling))"
proof -
  have h: "(0::nat) < length [first_triangle example_tiling]" by simp
  from next_triangle_leaves_argument [OF h, of example_tiling] show ?thesis by auto
qed

subsection \<open>An arm shorter than the anchor index\<close>

lemma get_all_triangles_index_error:
  assumes "0 \<le> N" "N < self_n T" "2 \<le> self_m T"
  shows "get_all_triangles T N =
     Inl (IndexError,
          T\<lparr>self_N := N, self_triangles := map (arm_seq T) [0..<nat N],
            self_all_triangles :=
              (replicate (nat (self_m T)) (replicate (nat N) zeros))[0 := map (arm_seq T) [0..<nat N]],
            self_theta_m := 2 * pi / real_of_int (self_m T)\<rparr>)"
proof -
  let ?trs = "map (arm_seq T) [0..<nat N]"
  let ?T1 = "T\<lparr>self_N := N, self_triangles := ?trs\<rparr>"
  let ?T4 = "?T1\<lparr>self_all_triangles :=
                  (replicate (nat (self_m T)) (replicate (nat N) zeros))[0 := ?trs],
                 self_theta_m := 2 * pi / real_of_int (self_m T)\<rparr>"
  have g: "get_triangles T N = Inr (?T1, PyNone)"
    using assms(1) by (rule get_triangles_arm)
  have idx: "py_index (nat N) (self_n T - 1) = None"
    using assms by (simp add: py_index_def)
  have body: "arm_body ?T4 N 1 = Inl (IndexError, ?T4)"
    using idx by (simp add: arm_body_def Let_def)
  have "[1..<nat (self_m T)] = 1 # [Suc 1..<nat (self_m T)]"
    using assms(3) by (intro upt_conv_Cons) simp
  then have "arms_loop ?T4 N [1..<nat (self_m T)] = Inl (IndexError, ?T4)"
    using body by simp
  then show ?thesis
    using g assms(3) by (simp add: get_all_triangles_def Let_def)
qed

text \<open>
  The body of the loop over arms raises where one of its two reads raises, the read
  of line 215 first, and with the object as it was before the pass.
\<close>

lemma arm_body_reads:
  "arm_body T N i =
     (case read_rot_shift T of
        Inl e \<Rightarrow> Inl (e, T)
      | Inr rot_shift \<Rightarrow>
          (case read_anchor T i of
             Inl e \<Rightarrow> Inl (e, T)
           | Inr anchor \<Rightarrow>
               Inr (T\<lparr>self_all_triangles := (self_all_triangles T)[i :=
                      map (rows (\<lambda>p. padd p anchor))
                        (rotate_arm (self_theta_m T * real i) (nat N)
                           (map (rows (\<lambda>p. psub p rot_shift)) (self_triangles T)))]\<rparr>)))"
  by (simp add: arm_body_def read_rot_shift_def read_anchor_def Let_def split: option.splits)

text \<open>
  C6, as the code has it. With at least two arms and \<open>0 \<le> N < n\<close> the call raises
  IndexError, NumPy's own exception, in the first pass of the loop over arms (\<open>i = 1\<close>):
  for \<open>N = 0\<close> at the read of row 0 of the empty arm (line 215), for \<open>1 \<le> N\<close> at the
  read of the anchor row \<open>n - 1\<close> (line 227), the read of line 215 having succeeded.
  At that moment \<^verbatim>\<open>self.all_triangles\<close> holds arm 0 and zeros for the other arms.
\<close>

theorem get_all_triangles_short:
  assumes "0 \<le> N" "N < self_n T" "2 \<le> self_m T"
  shows "\<exists>T'. get_all_triangles T N = Inl (IndexError, T') \<and>
     T' = T\<lparr>self_N := N, self_triangles := map (arm_seq T) [0..<nat N],
            self_all_triangles :=
              (replicate (nat (self_m T)) (replicate (nat N) zeros))[0 := map (arm_seq T) [0..<nat N]],
            self_theta_m := 2 * pi / real_of_int (self_m T)\<rparr> \<and>
     arm_body T' N 1 = Inl (IndexError, T') \<and>
     (N = 0 \<longrightarrow> read_rot_shift T' = Inl IndexError) \<and>
     (1 \<le> N \<longrightarrow> read_rot_shift T' = Inr (P_A (first_triangle T)) \<and>
                read_anchor T' 1 = Inl IndexError)"
proof -
  let ?T' = "T\<lparr>self_N := N, self_triangles := map (arm_seq T) [0..<nat N],
            self_all_triangles :=
              (replicate (nat (self_m T)) (replicate (nat N) zeros))[0 := map (arm_seq T) [0..<nat N]],
            self_theta_m := 2 * pi / real_of_int (self_m T)\<rparr>"
  have 1: "get_all_triangles T N = Inl (IndexError, ?T')"
    using assms by (rule get_all_triangles_index_error)
  have idx: "py_index (nat N) (self_n T - 1) = None"
    using assms by (simp add: py_index_def)
  then have 2: "arm_body ?T' N 1 = Inl (IndexError, ?T')"
    by (simp add: arm_body_def Let_def)
  have 3: "read_rot_shift ?T' = Inl IndexError" if "N = 0"
    using that by (simp add: read_rot_shift_def)
  have 4: "read_rot_shift ?T' = Inr (P_A (first_triangle T))" if "1 \<le> N"
  proof -
    have "0 < nat N" using that by simp
    then show ?thesis by (simp add: read_rot_shift_def upt_conv_Cons arm_seq_0)
  qed
  have 5: "read_anchor ?T' 1 = Inl IndexError"
    using idx by (simp add: read_anchor_def)
  from 1 2 3 4 5 show ?thesis by blast
qed

theorem get_all_triangles_short_witness:
  "(0::int) \<le> 1 \<and> 1 < self_n example_tiling \<and> 2 \<le> self_m example_tiling \<and>
   (\<exists>T'. get_all_triangles example_tiling 1 = Inl (IndexError, T') \<and>
      arm_body T' 1 1 = Inl (IndexError, T') \<and>
      read_rot_shift T' = Inr (P_A (first_triangle example_tiling)) \<and>
      read_anchor T' 1 = Inl IndexError)"
proof -
  have h: "(0::int) \<le> 1" "1 < self_n example_tiling" "2 \<le> self_m example_tiling"
    by (simp_all add: example_tiling_def)
  from get_all_triangles_short [OF h] h show ?thesis by auto
qed

text \<open>
  The call \<^verbatim>\<open>MultiTriangleTiling(C = 90, n = 2, m = 3).get_all_triangles(1)\<close>
  ends in IndexError; the source defines no exception class of its own.
\<close>

theorem get_all_triangles_short_counterexample:
  "get_all_triangles example_tiling 1 =
     Inl (IndexError,
          example_tiling\<lparr>self_N := 1, self_triangles := [first_triangle example_tiling],
            self_all_triangles := [[first_triangle example_tiling], [zeros], [zeros]],
            self_theta_m := 2 * pi / 3\<rparr>)"
proof -
  have "get_all_triangles example_tiling 1 =
     Inl (IndexError,
          example_tiling\<lparr>self_N := 1, self_triangles := map (arm_seq example_tiling) [0..<nat 1],
            self_all_triangles :=
              (replicate (nat (self_m example_tiling)) (replicate (nat 1) zeros))
                 [0 := map (arm_seq example_tiling) [0..<nat 1]],
            self_theta_m := 2 * pi / real_of_int (self_m example_tiling)\<rparr>)"
    by (rule get_all_triangles_index_error) (simp_all add: example_tiling_def)
  moreover have "nat (self_m example_tiling) = Suc (Suc (Suc 0))"
    by (simp add: example_tiling_def)
  moreover have "real_of_int (self_m example_tiling) = 3"
    by (simp add: example_tiling_def)
  ultimately show ?thesis by (simp add: arm_seq_0)
qed

subsection \<open>What get_triangles returns\<close>

lemma arm_body_triangles:
  "arm_body T N i = Inr T' \<Longrightarrow> self_triangles T' = self_triangles T"
  by (auto simp: arm_body_def Let_def split: if_splits option.splits)

lemma arms_loop_triangles:
  "arms_loop T N is = Inr T' \<Longrightarrow> self_triangles T' = self_triangles T"
proof (induction "is" arbitrary: T)
  case Nil
  then show ?case by simp
next
  case (Cons i "is")
  then show ?case
    by (auto split: sum.splits dest: arm_body_triangles)
qed

lemma get_all_triangles_returns:
  assumes "get_all_triangles T N = Inr (T'', v)" "get_triangles T N = Inr (T', w)"
  shows "v = Array4 (self_all_triangles T'') \<and> self_triangles T'' = self_triangles T'"
  using assms
  by (auto simp: get_all_triangles_def Let_def split: sum.splits if_splits prod.splits
      dest!: arms_loop_triangles)

text \<open>
  C10. For \<open>N \<ge> 1\<close>, \<^verbatim>\<open>get_triangles\<close> returns None and leaves the arm in the
  attribute \<^verbatim>\<open>triangles\<close> (and \<open>N\<close> in \<^verbatim>\<open>N\<close>). Whenever
  \<^verbatim>\<open>get_all_triangles\<close> returns, it returns the array it stored in
  \<^verbatim>\<open>all_triangles\<close>, and the attribute \<^verbatim>\<open>triangles\<close> holds that same arm.
\<close>

theorem get_triangles_returns_none:
  assumes "1 \<le> N"
  shows "\<exists>T'. get_triangles T N = Inr (T', PyNone) \<and>
           self_N T' = N \<and>
           self_triangles T' = map (arm_seq T) [0..<nat N] \<and>
           (\<forall>T'' v. get_all_triangles T N = Inr (T'', v) \<longrightarrow>
              v = Array4 (self_all_triangles T'') \<and> self_triangles T'' = self_triangles T')"
proof -
  let ?T' = "T\<lparr>self_N := N, self_triangles := map (arm_seq T) [0..<nat N]\<rparr>"
  have g: "get_triangles T N = Inr (?T', PyNone)"
    using assms by (intro get_triangles_arm) simp
  have "v = Array4 (self_all_triangles T'') \<and> self_triangles T'' = self_triangles ?T'"
    if "get_all_triangles T N = Inr (T'', v)" for T'' v
    using that g by (rule get_all_triangles_returns)
  with g show ?thesis by auto
qed

theorem get_triangles_returns_none_witness:
  "(1::int) \<le> 2 \<and>
   (\<exists>T'. get_triangles example_tiling 2 = Inr (T', PyNone) \<and> self_N T' = 2 \<and>
      self_triangles T' = map (arm_seq example_tiling) [0..<nat 2] \<and>
      get_all_triangles example_tiling 2 =
        Inr (assembled example_tiling 2 1, Array4 (self_all_triangles (assembled example_tiling 2 1))) \<and>
      self_triangles (assembled example_tiling 2 1) = self_triangles T')"
proof -
  have h: "(1::int) \<le> 2" by simp
  have a: "get_all_triangles example_tiling 2 =
        Inr (assembled example_tiling 2 1, Array4 (self_all_triangles (assembled example_tiling 2 1)))"
    by (rule get_all_triangles_arms) (simp_all add: example_tiling_def py_index_def)
  from get_triangles_returns_none [OF h, of example_tiling] a h show ?thesis by auto
qed

subsection \<open>The angle of the general constructor\<close>

text \<open>
  C7, as the code has it. The constructor has no guard on \<open>n\<close> and raises no
  DegenerateParameterError. For an \<open>m\<close> that is not zero and converts to a float, the
  angle is \<open>(2 pi / m - pi + C) / (n - 1)\<close> for every \<open>n \<noteq> 1\<close> whose \<open>n - 1\<close>
  converts to a float, also for \<open>n \<le> 0\<close>. For \<open>n = 1\<close> the same expression is
  evaluated with the divisor 0: the angle is an infinity or nan and nothing is raised
  there. Both side ratios are nan then, and when the solver has no solution for nan
  coefficients the construction fails with IndexError at \<^verbatim>\<open>s[0]\<close>: no object and
  no scaling factor are produced.
\<close>

theorem general_angle_no_guard:
  assumes "m \<noteq> 0" "\<not> int_too_large m"
  shows "(n \<noteq> 1 \<and> \<not> int_too_large (n - 1) \<longrightarrow>
            general_angle_A C n m =
              Inr (Fin ((2 * pi / real_of_int m - pi + deg2rad C) / real_of_int (n - 1)))) \<and>
         (general_angle_A C 1 m = Inr Inf \<or> general_angle_A C 1 m = Inr NaN) \<and>
         (solve NaN 1 NaN = [] \<longrightarrow> init solve C 1 m = Raises IndexError)"
proof -
  have z: "\<not> int_too_large (1 - 1)" by (simp add: int_too_large_def)
  have 1: "general_angle_A C n m =
      Inr (Fin ((2 * pi / real_of_int m - pi + deg2rad C) / real_of_int (n - 1)))"
    if "n \<noteq> 1 \<and> \<not> int_too_large (n - 1)"
    using that assms by (simp add: general_angle_A_def np_divide_def)
  have 2: "general_angle_A C 1 m = Inr Inf \<or> general_angle_A C 1 m = Inr NaN"
    using assms z by (simp add: general_angle_A_def np_divide_def)
  have 3: "init solve C 1 m = Raises IndexError" if "solve NaN 1 NaN = []"
    using 2 that by (auto simp: init_def get_s_nonfinite_def)
  from 1 2 3 show ?thesis by blast
qed

theorem general_angle_no_guard_witness:
  "(3::int) \<noteq> 0 \<and> \<not> int_too_large 3 \<and> (2::int) \<noteq> 1 \<and> \<not> int_too_large (2 - 1) \<and>
   linear_solver NaN 1 NaN = [] \<and>
   general_angle_A 90 2 3 = Inr (Fin (pi / 6)) \<and>
   (general_angle_A 90 1 3 = Inr Inf \<or> general_angle_A 90 1 3 = Inr NaN) \<and>
   init linear_solver 90 1 3 = Raises IndexError"
proof -
  have h: "(3::int) \<noteq> 0" "\<not> int_too_large 3"
    by (simp_all add: int_too_large_def)
  have k: "(2::int) \<noteq> 1 \<and> \<not> int_too_large (2 - 1)"
    by (simp add: int_too_large_def)
  have e: "linear_solver NaN 1 NaN = []" by simp
  have v: "(2 * pi / real_of_int 3 - pi + deg2rad 90) / real_of_int (2 - 1) = pi / 6"
    by (simp add: deg2rad_def)
  from general_angle_no_guard [OF h, of 2 90 linear_solver] k
  have "general_angle_A 90 2 3 = Inr (Fin (pi / 6))"
    unfolding v by blast
  moreover from general_angle_no_guard [OF h, of 1 90 linear_solver] e
  have "(general_angle_A 90 1 3 = Inr Inf \<or> general_angle_A 90 1 3 = Inr NaN) \<and>
        init linear_solver 90 1 3 = Raises IndexError"
    by blast
  ultimately show ?thesis using h k e by blast
qed

text \<open>
  \<^verbatim>\<open>MultiTriangleTiling(C = 120, n = 1, m = 5)\<close>: line 49 is evaluated, its
  numerator is \<open>pi / 15\<close> and the angle is an infinity; the exception that ends the
  construction is the IndexError of \<^verbatim>\<open>s[0]\<close>.
\<close>

theorem init_degenerate_counterexample:
  "general_angle_A 120 1 5 = Inr Inf \<and> init linear_solver 120 1 5 = Raises IndexError"
proof -
  have x: "2 * pi / real_of_int 5 - pi + deg2rad 120 = pi / 15"
    by (simp add: deg2rad_def)
  have "general_angle_A 120 1 5 =
      Inr (np_divide (2 * pi / real_of_int 5 - pi + deg2rad 120) (real_of_int (1 - 1)))"
    by (simp add: general_angle_A_def int_too_large_def)
  also have "\<dots> = Inr Inf"
    unfolding x by (simp add: np_divide_def)
  finally have "general_angle_A 120 1 5 = Inr Inf" .
  then show ?thesis by (simp add: init_def get_s_nonfinite_def)
qed

subsection \<open>The scaling factor\<close>

lemma linear_solver_exact: "solver_exact linear_solver a 1 b"
proof -
  have "s = 1 / (a + b)" if "a * s + b * s - 1 = 0" for s
  proof -
    from that have "(a + b) * s = 1" by (simp add: algebra_simps)
    then show ?thesis by (metis nonzero_mult_div_cancel_left mult_zero_left zero_neq_one)
  qed
  moreover have "a * s + b * s - 1 = 0 \<Longrightarrow> 0 < s \<Longrightarrow> 0 < a + b" for s
  proof -
    assume "a * s + b * s - 1 = 0" "0 < s"
    then have "(a + b) * s = 1" by (simp add: algebra_simps)
    then show "0 < a + b" using \<open>0 < s\<close> by (metis zero_less_mult_pos2 zero_less_one)
  qed
  moreover have "a * (1 / (a + b)) + b * (1 / (a + b)) - 1 = 0" if "0 < a + b"
  proof -
    have "a * (1 / (a + b)) + b * (1 / (a + b)) = (a + b) * (1 / (a + b))"
      by (simp only: distrib_right)
    also have "\<dots> = 1" using that by simp
    finally show ?thesis by simp
  qed
  ultimately show ?thesis
    by (auto simp: solver_exact_def)
qed

lemma root_in_unit_interval:
  fixes a b :: real
  assumes "0 < a" "0 < b" "1 < a + b" "1 \<le> k"
  shows "\<exists>x. 0 < x \<and> x < 1 \<and> a * x ^ k + b * x - 1 = 0"
proof -
  let ?f = "\<lambda>x. a * x ^ k + b * x - 1"
  have "\<exists>x. 0 \<le> x \<and> x \<le> 1 \<and> ?f x = 0"
    using assms by (intro IVT) (auto simp: power_0_left intro!: continuous_intros)
  then obtain x where x: "0 \<le> x" "x \<le> 1" "?f x = 0" by blast
  have "x \<noteq> 0" using x(3) assms(4) by (auto simp: power_0_left)
  moreover have "x \<noteq> 1" using x(3) assms(3) by auto
  ultimately show ?thesis using x by (intro exI [of _ x]) auto
qed

lemma positive_root_below_one:
  fixes a b r :: real
  assumes "0 < a" "0 < b" "1 < a + b" "0 < r" "a * r ^ k + b * r - 1 = 0"
  shows "r < 1"
proof (rule ccontr)
  assume "\<not> r < 1"
  then have r: "1 \<le> r" by simp
  then have "1 \<le> r ^ k" by (rule one_le_power)
  then have "a * 1 \<le> a * r ^ k" using assms(1) by (intro mult_left_mono) simp_all
  moreover have "b * 1 \<le> b * r" using assms(2) r by (intro mult_left_mono) simp_all
  ultimately show False using assms(3,5) by simp
qed

text \<open>
  C2. For side ratios of a triangle with \<open>c = 1\<close> (both positive, their sum above 1),
  \<open>n \<ge> 1\<close> and a solver that lists the positive real roots, \<^verbatim>\<open>get_s\<close> succeeds and
  the stored \<open>s\<close> satisfies \<open>a s\<^sup>n + b s - 1 = 0\<close> and \<open>0 < s < 1\<close>.
\<close>

theorem get_s_root_in_unit_interval:
  assumes "solver_exact solve (self_a T) (self_n T) (self_b T)"
    and "0 < self_a T" "0 < self_b T" "1 < self_a T + self_b T" "1 \<le> self_n T"
  shows "\<exists>r. get_s solve T = Inr (T\<lparr>self_s := r\<rparr>) \<and> 0 < r \<and> r < 1 \<and>
           self_a T * power_int r (self_n T) + self_b T * r - 1 = 0"
proof -
  let ?k = "nat (self_n T)"
  have pw: "power_int x (self_n T) = x ^ ?k" for x :: real
    using assms(5) by (simp add: power_int_def)
  have "1 \<le> ?k" using assms(5) by simp
  from root_in_unit_interval [OF assms(2,3,4) this]
  obtain x where "0 < x" "self_a T * x ^ ?k + self_b T * x - 1 = 0" by blast
  then have "x \<in> set (solve (Fin (self_a T)) (self_n T) (Fin (self_b T)))"
    using assms(1) by (simp add: solver_exact_def pw)
  then obtain r rs where sol: "solve (Fin (self_a T)) (self_n T) (Fin (self_b T)) = r # rs"
    by (cases "solve (Fin (self_a T)) (self_n T) (Fin (self_b T))") auto
  then have "r \<in> set (solve (Fin (self_a T)) (self_n T) (Fin (self_b T)))" by simp
  then have r: "0 < r" "self_a T * r ^ ?k + self_b T * r - 1 = 0"
    using assms(1) by (simp_all add: solver_exact_def pw)
  have "r < 1" using assms(2,3,4) r by (rule positive_root_below_one)
  with r sol show ?thesis by (auto simp: get_s_def pw)
qed

theorem get_s_root_in_unit_interval_witness:
  "solver_exact linear_solver (self_a equilateral_tiling) (self_n equilateral_tiling)
      (self_b equilateral_tiling) \<and>
   0 < self_a equilateral_tiling \<and> 0 < self_b equilateral_tiling \<and>
   1 < self_a equilateral_tiling + self_b equilateral_tiling \<and> 1 \<le> self_n equilateral_tiling \<and>
   get_s linear_solver equilateral_tiling = Inr (equilateral_tiling\<lparr>self_s := 1 / 2\<rparr>) \<and>
   (\<exists>r. get_s linear_solver equilateral_tiling = Inr (equilateral_tiling\<lparr>self_s := r\<rparr>) \<and>
      0 < r \<and> r < 1 \<and>
      self_a equilateral_tiling * power_int r (self_n equilateral_tiling) +
        self_b equilateral_tiling * r - 1 = 0)"
proof -
  have h1: "solver_exact linear_solver (self_a equilateral_tiling) (self_n equilateral_tiling)
      (self_b equilateral_tiling)"
    using linear_solver_exact [of 1 1] by (simp add: equilateral_tiling_def)
  have h: "0 < self_a equilateral_tiling" "0 < self_b equilateral_tiling"
    "1 < self_a equilateral_tiling + self_b equilateral_tiling" "1 \<le> self_n equilateral_tiling"
    by (simp_all add: equilateral_tiling_def)
  have v: "get_s linear_solver equilateral_tiling = Inr (equilateral_tiling\<lparr>self_s := 1 / 2\<rparr>)"
    by (simp add: get_s_def equilateral_tiling_def)
  from get_s_root_in_unit_interval [OF h1 h] h1 h v show ?thesis by blast
qed

text \<open>
  C3, as the code has it. \<^verbatim>\<open>get_s\<close> stores the first element of the list that
  the solver returns and checks neither the interval \<open>(0, 1)\<close> nor the number of roots;
  it fails exactly when that list is empty, with IndexError.
\<close>

theorem get_s_first_root:
  "(get_s solve T = Inl IndexError \<longleftrightarrow>
      solve (Fin (self_a T)) (self_n T) (Fin (self_b T)) = []) \<and>
   (\<forall>r rs. solve (Fin (self_a T)) (self_n T) (Fin (self_b T)) = r # rs \<longrightarrow>
      get_s solve T = Inr (T\<lparr>self_s := r\<rparr>))"
  by (cases "solve (Fin (self_a T)) (self_n T) (Fin (self_b T))") (simp_all add: get_s_def)

theorem get_s_first_root_witness:
  "linear_solver (Fin (self_a equilateral_tiling)) (self_n equilateral_tiling)
      (Fin (self_b equilateral_tiling)) = [1 / 2] \<and>
   get_s linear_solver equilateral_tiling \<noteq> Inl IndexError \<and>
   get_s linear_solver equilateral_tiling = Inr (equilateral_tiling\<lparr>self_s := 1 / 2\<rparr>)"
proof -
  have v: "linear_solver (Fin (self_a equilateral_tiling)) (self_n equilateral_tiling)
      (Fin (self_b equilateral_tiling)) = [1 / 2]"
    by (simp add: equilateral_tiling_def)
  from get_s_first_root [of linear_solver equilateral_tiling] v show ?thesis by simp
qed

text \<open>
  \<^verbatim>\<open>RegularMultiTriangleTiling(A = 120, m = 4)\<close>: the equation
  \<open>(sqrt 3 / 2 - 1 / 2) * s - 1 = 0\<close> has the single root \<open>1 + sqrt 3\<close>, which lies
  outside \<open>(0, 1)\<close>, and the constructor returns with it.
\<close>

theorem get_s_first_root_counterexample:
  "regular_init linear_solver 120 4 =
     Returns \<lparr>self_n = 1, self_m = 4, self_C = pi / 2, self_A = 2 * pi / 3, self_B = - (pi / 6),
       self_a = sqrt 3 / 2, self_b = - (1 / 2), self_c = 1, self_s = 1 + sqrt 3,
       self_N = 0, self_triangles = [], self_all_triangles = [], self_theta_m = 0\<rparr> \<and>
   1 < 1 + sqrt 3"
proof -
  have C: "pi - 2 * pi / real_of_int 4 = pi / 2" by simp
  have A: "deg2rad 120 = 2 * pi / 3" by (simp add: deg2rad_def)
  have B: "pi - (2 * pi / 3 + pi / 2) = - (pi / 6)" by simp
  have sA: "sin (2 * pi / 3) = sqrt 3 / 2"
  proof -
    have "2 * pi / 3 = pi - pi / 3" by argo
    then have "sin (2 * pi / 3) = sin (pi - pi / 3)" by (rule arg_cong)
    then show ?thesis by (simp only: sin_pi_minus sin_60)
  qed
  have sB: "sin (- (pi / 6)) = - (1 / 2)" by (simp add: sin_30)
  have lt: "1 < sqrt 3" by (simp add: real_less_rsqrt)
  then have pos: "0 < sqrt 3 / 2 + - (1 / 2)" by simp
  have "(sqrt 3 - 1) * (1 + sqrt 3) = 2" by (simp add: algebra_simps)
  then have s: "1 / (sqrt 3 / 2 + - (1 / 2)) = 1 + sqrt 3"
    using pos by (simp add: field_simps)
  show ?thesis
    unfolding regular_init_def side_ratios_def C A
    using pos s lt by (simp add: Let_def B sA sB sin_30 np_divide_def get_s_def int_too_large_def)
qed

subsection \<open>Rotational symmetry of the arms\<close>

lemma cx_inj: "cx p = cx q \<Longrightarrow> p = q"
  by (simp add: cx_def prod_eq_iff)

lemma cx_padd: "cx (padd p q) = cx p + cx q"
  by (simp add: cx_def padd_def complex_eq_iff)

lemma cx_psub: "cx (psub p q) = cx p - cx q"
  by (simp add: cx_def psub_def complex_eq_iff)

lemma cx_rot: "cx (rot_mat_dot t p) = cis (- t) * cx p"
  by (simp add: cx_def rot_mat_dot_def complex_eq_iff)

lemma cx_rot_step: "cx (rot_mat_dot (theta * real i) p) = cis (- theta) ^ i * cx p"
  by (simp add: cx_rot DeMoivre mult.commute)

lemma rows_cong: "(\<And>p. f p = g p) \<Longrightarrow> rows f t = rows g t"
  by (cases t) simp

lemma rows_ident: "(\<And>p. f p = p) \<Longrightarrow> rows f t = t"
  by (cases t) simp

lemma P_B_rows: "P_B (rows f t) = f (P_B t)"
  by (cases t) simp

lemma arm_of_closed:
  assumes "j < length trs"
  shows "arm_of theta j trs i =
     map (rows (\<lambda>p. padd (rot_mat_dot (theta * real i) (psub p (P_A (trs ! 0))))
                          (anchor_of theta (P_A (trs ! 0)) (P_B (trs ! j)) i))) trs"
proof (induction i)
  case 0
  have "padd (rot_mat_dot (theta * real 0) (psub p q)) q = p" for p q
    by (simp add: padd_def psub_def rot_mat_dot_def)
  then show ?case by (simp add: rows_ident map_idI)
next
  case (Suc i)
  show ?case
    unfolding arm_of.simps Suc.IH using assms by (simp add: P_B_rows)
qed

lemma cx_anchor_of:
  "cx (anchor_of theta p0 u i) = cx p0 + (cx u - cx p0) * (\<Sum>k<i. cis (- theta) ^ k)"
  by (induction i) (simp_all add: cx_padd cx_rot_step cx_psub algebra_simps)

lemma rotate_arm_point:
  assumes "(1 - cis (- theta)) * cx c = cx u - cis (- theta) * cx p0"
  shows "padd (rot_mat_dot theta
            (psub (padd (rot_mat_dot (theta * real i) (psub p p0)) (anchor_of theta p0 u i)) c)) c =
         padd (rot_mat_dot (theta * real (Suc i)) (psub p p0)) (anchor_of theta p0 u (Suc i))"
proof (rule cx_inj)
  let ?w = "cis (- theta)"
  let ?t = "cx (anchor_of theta p0 u i)"
  have c: "cx c - ?w * cx c = cx u - ?w * cx p0"
    using assms by (simp add: algebra_simps)
  have t: "?w * ?t - ?w * cx p0 = (cx u - cx p0) * (?w * (\<Sum>k<i. ?w ^ k))"
    by (simp add: cx_anchor_of algebra_simps)
  have s: "?w * (\<Sum>k<i. ?w ^ k) = (\<Sum>k<i. ?w ^ k) + ?w ^ i - 1"
    using one_diff_power_eq [of ?w i] by (simp add: algebra_simps)
  have t': "?w * ?t - ?w * cx p0 = ?t - cx p0 + (cx u - cx p0) * ?w ^ i - (cx u - cx p0)"
    unfolding t s by (simp add: cx_anchor_of algebra_simps)
  have rhs: "cx (padd (rot_mat_dot (theta * real (Suc i)) (psub p p0)) (anchor_of theta p0 u (Suc i))) =
      ?w ^ Suc i * (cx p - cx p0) + (?w ^ i * (cx u - cx p0) + ?t)"
    by (simp only: cx_padd cx_rot_step cx_psub anchor_of.simps)
  have "cx (padd (rot_mat_dot theta
            (psub (padd (rot_mat_dot (theta * real i) (psub p p0)) (anchor_of theta p0 u i)) c)) c) =
        ?w * (?w ^ i * (cx p - cx p0) + ?t - cx c) + cx c"
    by (simp only: cx_padd cx_rot [of theta] cx_rot_step cx_psub)
  also have "\<dots> = ?w ^ Suc i * (cx p - cx p0) + (?w * ?t - ?w * cx p0) + ?w * cx p0 + (cx c - ?w * cx c)"
    by (simp add: algebra_simps)
  also have "\<dots> = ?w ^ Suc i * (cx p - cx p0) + (?w ^ i * (cx u - cx p0) + ?t)"
    unfolding c t' by (simp add: algebra_simps)
  finally show "cx (padd (rot_mat_dot theta
            (psub (padd (rot_mat_dot (theta * real i) (psub p p0)) (anchor_of theta p0 u i)) c)) c) =
      cx (padd (rot_mat_dot (theta * real (Suc i)) (psub p p0)) (anchor_of theta p0 u (Suc i)))"
    unfolding rhs .
qed


lemma cis_neq_one:
  assumes "0 < theta" "theta \<le> pi"
  shows "cis (- theta) \<noteq> 1"
proof
  assume "cis (- theta) = 1"
  then have "Re (cis (- theta)) = 1" by simp
  then have "cos theta = 1" by simp
  moreover have "cos theta < cos 0"
    using assms by (intro cos_monotone_0_pi) simp_all
  ultimately show False by simp
qed

lemma full_turn:
  assumes "2 \<le> M" "theta = 2 * pi / real M"
  shows "padd (rot_mat_dot (theta * real M) (psub p p0)) (anchor_of theta p0 u M) = p"
proof (rule cx_inj)
  let ?w = "cis (- theta)"
  have M: "real M \<noteq> 0" "2 \<le> real M" using assms(1) by simp_all
  have th: "theta * real M = 2 * pi" using M assms(2) by simp
  have "0 < theta" using assms M by simp
  moreover have "theta \<le> pi"
  proof -
    have "2 * pi / real M \<le> 2 * pi / 2"
      using M by (intro divide_left_mono) simp_all
    then show ?thesis using assms(2) by simp
  qed
  ultimately have w: "?w \<noteq> 1" by (rule cis_neq_one)
  have "?w ^ M = cis (- (theta * real M))"
    by (simp add: DeMoivre mult.commute)
  also have "\<dots> = 1" unfolding th by (simp add: cis_cnj [symmetric] del: cis_cnj)
  finally have wM: "?w ^ M = 1" .
  have "(1 - ?w) * (\<Sum>k<M. ?w ^ k) = 0"
    using one_diff_power_eq [of ?w M] wM by simp
  then have sum0: "(\<Sum>k<M. ?w ^ k) = 0" using w by simp
  show "cx (padd (rot_mat_dot (theta * real M) (psub p p0)) (anchor_of theta p0 u M)) = cx p"
    by (simp add: cx_padd cx_rot_step cx_psub cx_anchor_of sum0 wM)
qed

lemma centre_exists:
  assumes "w \<noteq> 1"
  shows "\<exists>c. (1 - w) * cx c = z"
proof -
  let ?v = "z / (1 - w)"
  have "cx (Re ?v, Im ?v) = ?v" by (simp add: cx_def)
  then have "(1 - w) * cx (Re ?v, Im ?v) = z" using assms by simp
  then show ?thesis ..
qed


lemma arm_of_rotated:
  assumes "j < length trs" "1 \<le> M" "theta = 2 * pi / real M"
  shows "\<exists>c. \<forall>i. i < M \<longrightarrow>
           map (rows (\<lambda>p. padd (rot_mat_dot theta (psub p c)) c)) (arm_of theta j trs i) =
           arm_of theta j trs (Suc i mod M)"
proof (cases "M = 1")
  case True
  have "padd (rot_mat_dot theta (psub p (0, 0))) (0, 0) = p" for p
    using True assms(3) by (simp add: padd_def psub_def rot_mat_dot_def)
  then have "map (rows (\<lambda>p. padd (rot_mat_dot theta (psub p (0, 0))) (0, 0))) trs = trs"
    by (simp add: rows_ident map_idI)
  then show ?thesis using True by (intro exI [of _ "(0, 0)"]) simp
next
  case False
  then have M: "2 \<le> M" using assms(2) by simp
  let ?p0 = "P_A (trs ! 0)" and ?u = "P_B (trs ! j)"
  let ?w = "cis (- theta)"
  have "0 < theta" using assms(3) M by simp
  moreover have "theta \<le> pi"
  proof -
    have "2 * pi / real M \<le> 2 * pi / 2"
      using M by (intro divide_left_mono) simp_all
    then show ?thesis using assms(3) by simp
  qed
  ultimately have "?w \<noteq> 1" by (rule cis_neq_one)
  then obtain c where c: "(1 - ?w) * cx c = cx ?u - ?w * cx ?p0"
    using centre_exists by blast
  have "map (rows (\<lambda>p. padd (rot_mat_dot theta (psub p c)) c)) (arm_of theta j trs i) =
           arm_of theta j trs (Suc i mod M)" if "i < M" for i
  proof -
    have "map (rows (\<lambda>p. padd (rot_mat_dot theta (psub p c)) c)) (arm_of theta j trs i) =
       map (rows (\<lambda>p. padd (rot_mat_dot (theta * real (Suc i)) (psub p ?p0))
                            (anchor_of theta ?p0 ?u (Suc i)))) trs"
      unfolding arm_of_closed [OF assms(1)] map_map o_def rows_rows
        rotate_arm_point [OF c] ..
    also have "\<dots> = arm_of theta j trs (Suc i mod M)"
    proof (cases "Suc i = M")
      case True
      have "padd (rot_mat_dot (theta * real M) (psub p ?p0)) (anchor_of theta ?p0 ?u M) = p" for p
        using M assms(3) by (rule full_turn)
      then have "map (rows (\<lambda>p. padd (rot_mat_dot (theta * real M) (psub p ?p0))
                            (anchor_of theta ?p0 ?u M))) trs = trs"
        by (simp add: rows_ident map_idI)
      then show ?thesis using True by simp
    next
      case False
      then have "Suc i mod M = Suc i" using that by simp
      then show ?thesis by (simp only: arm_of_closed [OF assms(1), symmetric])
    qed
    finally show ?thesis .
  qed
  then show ?thesis by blast
qed

text \<open>
  C8. With \<open>1 \<le> n \<le> N\<close> and at least one arm, \<^verbatim>\<open>get_all_triangles\<close> succeeds
  and there is a centre \<open>c\<close> such that rotating every point of arm \<open>i\<close> about \<open>c\<close> by
  \<open>2 pi / m\<close>, with the rotation matrix of the program, gives arm \<open>i + 1\<close>, and gives
  arm 0 for the last arm. With real coordinates the arrays are equal.
\<close>

theorem get_all_triangles_rotational_symmetry:
  assumes "1 \<le> self_n T" "self_n T \<le> N" "1 \<le> self_m T"
  shows "\<exists>T' arms c. get_all_triangles T N = Inr (T', Array4 arms) \<and>
           length arms = nat (self_m T) \<and>
           (\<forall>i. i < nat (self_m T) \<longrightarrow>
              map (rows (\<lambda>p. padd (rot_mat_dot (2 * pi / real_of_int (self_m T)) (psub p c)) c))
                  (arms ! i) =
              arms ! (Suc i mod nat (self_m T)))"
proof -
  let ?j = "nat (self_n T - 1)"
  let ?M = "nat (self_m T)"
  let ?trs = "map (arm_seq T) [0..<nat N]"
  let ?th = "2 * pi / real_of_int (self_m T)"
  let ?arms = "map (arm_of ?th ?j ?trs) [0..<?M]"
  have idx: "py_index (nat N) (self_n T - 1) = Some ?j"
    using assms by (simp add: py_index_def)
  have N0: "0 \<le> N" using assms by simp
  have "get_all_triangles T N =
     Inr (assembled T N ?j, Array4 (self_all_triangles (assembled T N ?j)))"
    using N0 assms(3) idx by (rule get_all_triangles_arms)
  then have 1: "get_all_triangles T N = Inr (assembled T N ?j, Array4 ?arms)"
    by (simp add: assembled_def Let_def)
  have j: "?j < length ?trs" using assms by simp
  have M: "1 \<le> ?M" using assms(3) by simp
  have th: "?th = 2 * pi / real ?M" using assms(3) by simp
  from arm_of_rotated [OF j M th]
  obtain c where c: "\<forall>i. i < ?M \<longrightarrow>
           map (rows (\<lambda>p. padd (rot_mat_dot ?th (psub p c)) c)) (arm_of ?th ?j ?trs i) =
           arm_of ?th ?j ?trs (Suc i mod ?M)"
    by blast
  have "map (rows (\<lambda>p. padd (rot_mat_dot ?th (psub p c)) c)) (?arms ! i) = ?arms ! (Suc i mod ?M)"
    if "i < ?M" for i
  proof -
    have "Suc i mod ?M < ?M" using that by simp
    then show ?thesis using that c by (simp del: arm_of.simps)
  qed
  with 1 show ?thesis by (intro exI [of _ "assembled T N ?j"] exI [of _ ?arms] exI [of _ c]) simp
qed


theorem get_all_triangles_rotational_symmetry_witness:
  "1 \<le> self_n example_tiling \<and> self_n example_tiling \<le> 2 \<and> 1 \<le> self_m example_tiling \<and>
   (\<exists>T' arms c. get_all_triangles example_tiling 2 = Inr (T', Array4 arms) \<and> length arms = 3 \<and>
      map (rows (\<lambda>p. padd (rot_mat_dot (2 * pi / 3) (psub p c)) c)) (arms ! 0) = arms ! 1 \<and>
      map (rows (\<lambda>p. padd (rot_mat_dot (2 * pi / 3) (psub p c)) c)) (arms ! 1) = arms ! 2 \<and>
      map (rows (\<lambda>p. padd (rot_mat_dot (2 * pi / 3) (psub p c)) c)) (arms ! 2) = arms ! 0)"
proof -
  have h: "1 \<le> self_n example_tiling" "self_n example_tiling \<le> 2" "1 \<le> self_m example_tiling"
    by (simp_all add: example_tiling_def)
  have m: "nat (self_m example_tiling) = 3" "real_of_int (self_m example_tiling) = 3"
    by (simp_all add: example_tiling_def)
  from get_all_triangles_rotational_symmetry [OF h]
  obtain T' arms c where a: "get_all_triangles example_tiling 2 = Inr (T', Array4 arms)"
      "length arms = 3"
      "\<forall>i. i < 3 \<longrightarrow>
         map (rows (\<lambda>p. padd (rot_mat_dot (2 * pi / 3) (psub p c)) c)) (arms ! i) =
         arms ! (Suc i mod 3)"
    unfolding m by blast
  from a(3) have
    "map (rows (\<lambda>p. padd (rot_mat_dot (2 * pi / 3) (psub p c)) c)) (arms ! 0) = arms ! (Suc 0 mod 3)"
    "map (rows (\<lambda>p. padd (rot_mat_dot (2 * pi / 3) (psub p c)) c)) (arms ! 1) = arms ! (Suc 1 mod 3)"
    "map (rows (\<lambda>p. padd (rot_mat_dot (2 * pi / 3) (psub p c)) c)) (arms ! 2) = arms ! (Suc 2 mod 3)"
    by simp_all
  then have
    "map (rows (\<lambda>p. padd (rot_mat_dot (2 * pi / 3) (psub p c)) c)) (arms ! 0) = arms ! 1"
    "map (rows (\<lambda>p. padd (rot_mat_dot (2 * pi / 3) (psub p c)) c)) (arms ! 1) = arms ! 2"
    "map (rows (\<lambda>p. padd (rot_mat_dot (2 * pi / 3) (psub p c)) c)) (arms ! 2) = arms ! 0"
    by (simp_all add: numeral_2_eq_2)
  with a(1,2) h show ?thesis by blast
qed

end
